theory Spec2Isabelle
  imports Complex_Main "HOL-Library.Word" "HOL-Library.Signed_Division"
begin

section \<open>The background timer subsystem (src/unix/utimernu.c)\<close>

text \<open>
  The embedding follows the C source function by function.

  \<^item> \<^verbatim>\<open>long\<close> (and its aliases \<^verbatim>\<open>msecs_t\<close>, \<^verbatim>\<open>usecs_t\<close>) is a 64-bit machine
    integer, as on the LP64 Unix targets of this file: \<open>+\<close>, \<open>-\<close> and \<open>*\<close> wrap
    around, comparisons are the signed ones (\<open><s\<close>, \<open>\<le>s\<close>) and \<open>sint\<close> reads
    the two's complement value.
  \<^item> A timer is an object with an identity: \<^verbatim>\<open>ALLEGRO_TIMER *\<close> is an address, the
    objects live in a store, and the vector \<^verbatim>\<open>active_timers\<close> holds addresses.
  \<^item> The mutex is not modelled: every operation below is one atomic step.
  \<^item> What the C code obtains from outside this file (the result of \<^verbatim>\<open>_AL_MALLOC\<close>,
    the elapsed time measured with \<^verbatim>\<open>gettimeofday\<close>, the clock read by
    \<^verbatim>\<open>al_current_time\<close>) is an input of the model.
\<close>

subsection \<open>Data\<close>

type_synonym long = "64 word"
type_synonym msecs_t = long
type_synonym usecs_t = long
type_synonym ptr = nat

datatype ALLEGRO_EVENT_TYPE = ALLEGRO_EVENT_TIMER | ALLEGRO_EVENT_OTHER

record ALLEGRO_EVENT =
  timer_type :: ALLEGRO_EVENT_TYPE
  timer_timestamp :: real
  timer_count :: long

text \<open>
  Modelled from the spec: the event source primitive
  (\<^verbatim>\<open>_al_event_source_needs_to_generate_event\<close>, \<^verbatim>\<open>_al_event_source_get_unused_event\<close>,
  \<^verbatim>\<open>_al_event_source_emit_event\<close>) is not part of this file. The spec describes it as
  a channel that buffers events, answers whether any subscriber needs an event, and
  whose buffer acquisition can fail by exhaustion. Its state is therefore: the answer
  to the needs-an-event check, the number of event buffers it can still hand out, and
  the events published so far (oldest first).
\<close>

record ALLEGRO_EVENT_SOURCE =
  needs_event :: bool
  unused_events :: nat
  emitted :: "ALLEGRO_EVENT list"

record ALLEGRO_TIMER =
  es :: ALLEGRO_EVENT_SOURCE
  started :: bool
  speed_usecs :: usecs_t
  count :: long
  counter :: long

text \<open>
  The globals of the file and its environment. \<open>debugmode\<close> is the build
  configuration: \<^verbatim>\<open>ASSERT\<close> checks its argument in debug builds only.
  \<open>timer_thread\<close> tells whether the background thread exists, \<open>destructors\<close> is
  the set of objects registered with \<^verbatim>\<open>_al_register_destructor\<close>, and
  \<open>current_time\<close> is what \<^verbatim>\<open>al_current_time\<close> returns (one reading serves a
  whole pass of the driver thread; a single tick takes the reading as an argument).
\<close>

record world =
  debugmode :: bool
  heap :: "ptr \<rightharpoonup> ALLEGRO_TIMER"
  active_timers :: "ptr list"
  timer_thread :: bool
  destructors :: "ptr set"
  current_time :: real

datatype error = Assertion_failed | Invalid_pointer | Nontermination

subsection \<open>Event source primitives\<close>

definition al_event_source_needs_to_generate_event :: "ALLEGRO_EVENT_SOURCE \<Rightarrow> bool" where
  "al_event_source_needs_to_generate_event src = needs_event src"

text \<open>\<open>True\<close> stands for a non-null event buffer.\<close>

definition al_event_source_get_unused_event :: "ALLEGRO_EVENT_SOURCE \<Rightarrow> bool" where
  "al_event_source_get_unused_event src = (0 < unused_events src)"

definition al_event_source_emit_event ::
  "ALLEGRO_EVENT_SOURCE \<Rightarrow> ALLEGRO_EVENT \<Rightarrow> ALLEGRO_EVENT_SOURCE" where
  "al_event_source_emit_event src event =
     src\<lparr>unused_events := unused_events src - 1, emitted := emitted src @ [event]\<rparr>"

text \<open>
  Modelled from the spec: \<^verbatim>\<open>_al_vector_find_and_delete\<close> is not part of this file;
  Stop "removes the timer from the registry". It deletes the first slot holding the
  given address, if there is one.
\<close>

definition al_vector_find_and_delete :: "ptr list \<Rightarrow> ptr \<Rightarrow> ptr list" where
  "al_vector_find_and_delete vec this = remove1 this vec"

subsection \<open>A single tick\<close>

definition timer_handle_tick :: "real \<Rightarrow> ALLEGRO_TIMER \<Rightarrow> ALLEGRO_TIMER" where
  "timer_handle_tick now this =
     (let this1 = this\<lparr>count := count this + 1\<rparr> in
      if al_event_source_needs_to_generate_event (es this1) then
        if al_event_source_get_unused_event (es this1) then
          this1\<lparr>es := al_event_source_emit_event (es this1)
                    \<lparr>timer_type = ALLEGRO_EVENT_TIMER,
                     timer_timestamp = now,
                     timer_count = count this1\<rparr>\<rparr>
        else this1
      else this1)"

subsection \<open>The per-cycle advance\<close>

text \<open>
  The inner \<^verbatim>\<open>while (timer->counter <= 0)\<close> loop. It need not terminate (a period
  of zero never leaves it), so not returning is the value \<open>None\<close>.
\<close>

partial_function (option) timer_thread_handle_tick_while ::
  "real \<Rightarrow> ALLEGRO_TIMER \<Rightarrow> ALLEGRO_TIMER option" where
  "timer_thread_handle_tick_while now timer =
     (if counter timer \<le>s 0 then
        timer_thread_handle_tick_while now
          (timer_handle_tick now (timer\<lparr>counter := counter timer + speed_usecs timer\<rparr>))
      else Some timer)"

text \<open>
  The \<^verbatim>\<open>for\<close> loop over the slots of \<^verbatim>\<open>active_timers\<close>, from the slot list still to
  visit and the current \<^verbatim>\<open>new_delay\<close>.
\<close>

fun timer_thread_handle_tick_for ::
  "usecs_t \<Rightarrow> ptr list \<Rightarrow> usecs_t \<Rightarrow> world \<Rightarrow> error + (usecs_t \<times> world)" where
  "timer_thread_handle_tick_for interval [] new_delay w = Inr (new_delay, w)"
| "timer_thread_handle_tick_for interval (slot # slots) new_delay w =
     (case heap w slot of
        None \<Rightarrow> Inl Invalid_pointer
      | Some timer \<Rightarrow>
          (case timer_thread_handle_tick_while (current_time w)
                  (timer\<lparr>counter := counter timer - interval\<rparr>) of
             None \<Rightarrow> Inl Nontermination
           | Some timer1 \<Rightarrow>
               timer_thread_handle_tick_for interval slots
                 (if 0 <s counter timer1 \<and> counter timer1 <s new_delay
                  then counter timer1 else new_delay)
                 (w\<lparr>heap := (heap w)(slot \<mapsto> timer1)\<rparr>)))"

definition timer_thread_handle_tick :: "usecs_t \<Rightarrow> world \<Rightarrow> error + (usecs_t \<times> world)" where
  "timer_thread_handle_tick interval w =
     timer_thread_handle_tick_for interval (active_timers w) 0x8000 w"

text \<open>
  The thread procedure. Each element of \<open>elapsed\<close> is the time measured by one
  pass of the loop body; the loop observes the stop request when the list is used up.
  The result lists the intervals the thread slept for, in order.
\<close>

fun timer_thread_proc_loop ::
  "usecs_t \<Rightarrow> usecs_t list \<Rightarrow> world \<Rightarrow> error + (usecs_t list \<times> world)" where
  "timer_thread_proc_loop interval [] w = Inr ([], w)"
| "timer_thread_proc_loop interval (e # elapsed) w =
     (case timer_thread_handle_tick e w of
        Inl err \<Rightarrow> Inl err
      | Inr (interval1, w1) \<Rightarrow>
          (case timer_thread_proc_loop interval1 elapsed w1 of
             Inl err \<Rightarrow> Inl err
           | Inr (sleeps, w2) \<Rightarrow> Inr (interval # sleeps, w2)))"

definition timer_thread_proc :: "usecs_t list \<Rightarrow> world \<Rightarrow> error + (usecs_t list \<times> world)" where
  "timer_thread_proc elapsed w = timer_thread_proc_loop 0x8000 elapsed w"

subsection \<open>Timer objects\<close>

text \<open>
  \<open>malloc_result\<close> is what \<^verbatim>\<open>_AL_MALLOC\<close> returns (\<open>None\<close> is the null pointer) and
  \<open>es_init\<close> the state \<^verbatim>\<open>_al_event_source_init\<close> leaves the new source in.
\<close>

definition al_install_timer ::
  "msecs_t \<Rightarrow> ptr option \<Rightarrow> ALLEGRO_EVENT_SOURCE \<Rightarrow> world \<Rightarrow> error + (ptr option \<times> world)" where
  "al_install_timer speed_msecs malloc_result es_init w =
     (if debugmode w \<and> \<not> 0 <s speed_msecs then Inl Assertion_failed
      else
        (case malloc_result of
           None \<Rightarrow> if debugmode w then Inl Assertion_failed else Inr (None, w)
         | Some timer \<Rightarrow>
             Inr (Some timer,
                  w\<lparr>heap := (heap w)(timer \<mapsto>
                       \<lparr>es = es_init, started = False, speed_usecs = speed_msecs * 1000,
                        count = 0, counter = 0\<rparr>),
                    destructors := insert timer (destructors w)\<rparr>)))"

definition al_start_timer :: "ptr \<Rightarrow> world \<Rightarrow> error + world" where
  "al_start_timer this w =
     (case heap w this of
        None \<Rightarrow> Inl Invalid_pointer
      | Some t \<Rightarrow>
          if started t then Inr w
          else
            (let w1 = w\<lparr>heap := (heap w)(this \<mapsto> t\<lparr>started := True, counter := speed_usecs t\<rparr>),
                        active_timers := active_timers w @ [this]\<rparr>;
                 new_size = length (active_timers w1)
             in Inr (if new_size = 1 then w1\<lparr>timer_thread := True\<rparr> else w1)))"

definition al_stop_timer :: "ptr \<Rightarrow> world \<Rightarrow> error + world" where
  "al_stop_timer this w =
     (case heap w this of
        None \<Rightarrow> Inl Invalid_pointer
      | Some t \<Rightarrow>
          if \<not> started t then Inr w
          else
            (let w1 = w\<lparr>active_timers := al_vector_find_and_delete (active_timers w) this,
                        heap := (heap w)(this \<mapsto> t\<lparr>started := False\<rparr>)\<rparr>;
                 new_size = length (active_timers w1)
             in Inr (if new_size = 0 then w1\<lparr>timer_thread := False, active_timers := []\<rparr>
                     else w1)))"

definition al_uninstall_timer :: "ptr \<Rightarrow> world \<Rightarrow> error + world" where
  "al_uninstall_timer this w =
     (case al_stop_timer this w of
        Inl err \<Rightarrow> Inl err
      | Inr w1 \<Rightarrow>
          Inr (w1\<lparr>destructors := destructors w1 - {this}, heap := (heap w1)(this := None)\<rparr>))"

definition al_timer_is_started :: "ptr \<Rightarrow> world \<Rightarrow> error + bool" where
  "al_timer_is_started this w =
     (case heap w this of None \<Rightarrow> Inl Invalid_pointer | Some t \<Rightarrow> Inr (started t))"

text \<open>C's \<^verbatim>\<open>/\<close> on \<^verbatim>\<open>long\<close>: the quotient is truncated towards zero.\<close>

definition long_div :: "long \<Rightarrow> long \<Rightarrow> long" where
  "long_div a b = word_of_int (sint a sdiv sint b)"

definition al_timer_get_speed :: "ptr \<Rightarrow> world \<Rightarrow> error + msecs_t" where
  "al_timer_get_speed this w =
     (case heap w this of
        None \<Rightarrow> Inl Invalid_pointer
      | Some t \<Rightarrow> Inr (long_div (speed_usecs t) 1000))"

definition al_timer_set_speed :: "ptr \<Rightarrow> msecs_t \<Rightarrow> world \<Rightarrow> error + world" where
  "al_timer_set_speed this new_speed_msecs w =
     (case heap w this of
        None \<Rightarrow> Inl Invalid_pointer
      | Some t \<Rightarrow>
          if debugmode w \<and> \<not> 0 <s new_speed_msecs then Inl Assertion_failed
          else
            (let t1 = (if started t
                       then t\<lparr>counter := counter t - speed_usecs t + new_speed_msecs * 1000\<rparr>
                       else t)
             in Inr (w\<lparr>heap := (heap w)(this \<mapsto> t1\<lparr>speed_usecs := new_speed_msecs * 1000\<rparr>)\<rparr>)))"

definition al_timer_get_count :: "ptr \<Rightarrow> world \<Rightarrow> error + long" where
  "al_timer_get_count this w =
     (case heap w this of None \<Rightarrow> Inl Invalid_pointer | Some t \<Rightarrow> Inr (count t))"

definition al_timer_set_count :: "ptr \<Rightarrow> long \<Rightarrow> world \<Rightarrow> error + world" where
  "al_timer_set_count this new_count w =
     (case heap w this of
        None \<Rightarrow> Inl Invalid_pointer
      | Some t \<Rightarrow> Inr (w\<lparr>heap := (heap w)(this \<mapsto> t\<lparr>count := new_count\<rparr>)\<rparr>))"

subsection \<open>Specification-level quantities\<close>

text \<open>
  The number of period boundaries a countdown \<open>d\<close> (after the elapsed time has been
  subtracted) has crossed, for a period \<open>P\<close>: none while \<open>d\<close> is positive, else
  \<open>\<lfloor>-d / P\<rfloor> + 1\<close>.
\<close>

definition ticks_due :: "int \<Rightarrow> int \<Rightarrow> int" where
  "ticks_due d P = (if d \<le> 0 then max 0 ((- d) div P + 1) else 0)"

text \<open>
  One turn of the \<^verbatim>\<open>while\<close> loop: the period is added to the countdown and one
  tick is fired.
\<close>

definition catch_up_step :: "real \<Rightarrow> ALLEGRO_TIMER \<Rightarrow> ALLEGRO_TIMER" where
  "catch_up_step now timer =
     timer_handle_tick now (timer\<lparr>counter := counter timer + speed_usecs timer\<rparr>)"

text \<open>
  The countdowns of the timers in the given slots, as integers, and those of them
  that are positive; the sleep interval the spec asks for is the least of these and
  of the idle interval of 32768 microseconds.
\<close>

definition countdowns_of :: "world \<Rightarrow> ptr list \<Rightarrow> int list" where
  "countdowns_of w ps =
     List.map_filter (\<lambda>p. map_option (\<lambda>t. sint (counter t)) (heap w p)) ps"

definition positive_countdowns :: "world \<Rightarrow> ptr list \<Rightarrow> int list" where
  "positive_countdowns w ps = filter (\<lambda>c. 0 < c) (countdowns_of w ps)"

definition next_sleep_interval :: "world \<Rightarrow> int" where
  "next_sleep_interval w = Min (set (32768 # positive_countdowns w (active_timers w)))"

text \<open>Every slot of the registry holds a live timer whose period is strictly positive.\<close>

definition active_periods_positive :: "world \<Rightarrow> ptr list \<Rightarrow> bool" where
  "active_periods_positive w ps =
     list_all (\<lambda>p. case heap w p of None \<Rightarrow> False | Some t \<Rightarrow> 0 <s speed_usecs t) ps"

text \<open>
  A result of \<^verbatim>\<open>al_install_timer\<close> that hands no timer to the caller: the assertion
  on the allocation aborted the call, or the null pointer was returned.
\<close>

definition install_failed :: "error + (ptr option \<times> world) \<Rightarrow> bool" where
  "install_failed r =
     (case r of Inl err \<Rightarrow> True | Inr (None, w) \<Rightarrow> True | Inr (Some p, w) \<Rightarrow> False)"

subsection \<open>The states the program can be in\<close>

text \<open>
  Before the first call: no timer object exists, the vector is
  \<^verbatim>\<open>_AL_VECTOR_INITIALIZER\<close> and there is no thread.
\<close>

definition initial_world :: "bool \<Rightarrow> real \<Rightarrow> world" where
  "initial_world dbg now =
     \<lparr>debugmode = dbg, heap = Map.empty, active_timers = [], timer_thread = False,
      destructors = {}, current_time = now\<rparr>"

text \<open>
  The states reached from there by any sequence of calls of the interface, of passes
  of the driver thread, and of steps of the environment (the clock moves on; the
  subscribers and consumers of a timer's event source change its state).
  \<^verbatim>\<open>_AL_MALLOC\<close> returns the null pointer or memory that is not in use.
\<close>

inductive reachable :: "world \<Rightarrow> bool" where
  init: "reachable (initial_world dbg now)"
| install:
    "reachable w \<Longrightarrow>
     (case malloc_result of None \<Rightarrow> True | Some p \<Rightarrow> heap w p = None) \<Longrightarrow>
     al_install_timer speed_msecs malloc_result es_init w = Inr (r, w') \<Longrightarrow> reachable w'"
| uninstall: "reachable w \<Longrightarrow> al_uninstall_timer this w = Inr w' \<Longrightarrow> reachable w'"
| start: "reachable w \<Longrightarrow> al_start_timer this w = Inr w' \<Longrightarrow> reachable w'"
| stop: "reachable w \<Longrightarrow> al_stop_timer this w = Inr w' \<Longrightarrow> reachable w'"
| set_speed:
    "reachable w \<Longrightarrow> al_timer_set_speed this new_speed_msecs w = Inr w' \<Longrightarrow> reachable w'"
| set_count:
    "reachable w \<Longrightarrow> al_timer_set_count this new_count w = Inr w' \<Longrightarrow> reachable w'"
| tick:
    "reachable w \<Longrightarrow> timer_thread_handle_tick interval w = Inr (r, w') \<Longrightarrow> reachable w'"
| environment:
    "reachable w \<Longrightarrow> heap w p = Some t \<Longrightarrow>
     reachable (w\<lparr>heap := (heap w)(p \<mapsto> t\<lparr>es := src\<rparr>), current_time := now\<rparr>)"

text \<open>
  The registry holds no address twice, and holds exactly the addresses of the live
  timers whose \<^verbatim>\<open>started\<close> flag is set.
\<close>

definition registry_inv :: "world \<Rightarrow> bool" where
  "registry_inv w \<longleftrightarrow>
     distinct (active_timers w)
     \<and> (\<forall>p. p \<in> set (active_timers w) \<longleftrightarrow> (\<exists>t. heap w p = Some t \<and> started t))"

subsection \<open>A concrete state\<close>

text \<open>
  One timer of period one second, created at address 1 and started, in a debug build.
\<close>

definition example_timer :: ALLEGRO_TIMER where
  "example_timer =
     \<lparr>es = \<lparr>needs_event = True, unused_events = 2, emitted = []\<rparr>,
      started = True, speed_usecs = 1000000, count = 0, counter = 1000000\<rparr>"

definition example_world :: world where
  "example_world =
     \<lparr>debugmode = True, heap = [1 \<mapsto> example_timer], active_timers = [1],
      timer_thread = True, destructors = {1}, current_time = 0\<rparr>"

section \<open>Auxiliary facts\<close>

lemma sint_add_no_overflow:
  fixes a b :: long
  assumes "- (2 ^ 63) \<le> sint a + sint b" "sint a + sint b < 2 ^ 63"
  shows "sint (a + b) = sint a + sint b"
  using assms by (simp add: sint_word_ariths signed_take_bit_int_eq_self)

lemma sint_long_bounds:
  fixes a :: long
  shows "- (2 ^ 63) \<le> sint a" "sint a < 2 ^ 63"
  using sint_ge [of a] sint_lt [of a] by simp_all

lemma tick_fields:
  "count (timer_handle_tick now t) = count t + 1"
  "counter (timer_handle_tick now t) = counter t"
  "speed_usecs (timer_handle_tick now t) = speed_usecs t"
  "started (timer_handle_tick now t) = started t"
  by (simp_all add: timer_handle_tick_def Let_def)

lemma ticks_due_pos:
  "0 < P \<Longrightarrow> ticks_due d P = (if d \<le> 0 then (- d) div P + 1 else 0)"
  by (simp add: ticks_due_def pos_imp_zdiv_nonneg_iff)

lemma while_result:
  assumes P: "0 <s speed_usecs t"
  shows "\<exists>t'. timer_thread_handle_tick_while now t = Some t'
           \<and> speed_usecs t' = speed_usecs t \<and> started t' = started t
           \<and> count t' = count t + word_of_int (ticks_due (sint (counter t)) (sint (speed_usecs t)))
           \<and> sint (counter t') = sint (counter t)
                + ticks_due (sint (counter t)) (sint (speed_usecs t)) * sint (speed_usecs t)
           \<and> 0 < sint (counter t')"
  using P
proof (induction "nat (- sint (counter t))" arbitrary: t rule: less_induct)
  case less
  let ?d = "sint (counter t)" and ?P = "sint (speed_usecs t)"
  have Ppos: "0 < ?P" using less.prems by (simp add: word_sless_alt)
  show ?case
  proof (cases "counter t \<le>s 0")
    case False
    then have "0 < ?d" by (simp add: word_sle_eq)
    with False show ?thesis
      by (subst timer_thread_handle_tick_while.simps) (simp add: ticks_due_pos [OF Ppos])
  next
    case True
    then have d: "?d \<le> 0" by (simp add: word_sle_eq)
    let ?t1 = "timer_handle_tick now (t\<lparr>counter := counter t + speed_usecs t\<rparr>)"
    have sum: "sint (counter t + speed_usecs t) = ?d + ?P"
      using d Ppos sint_long_bounds [of "counter t"] sint_long_bounds [of "speed_usecs t"]
      by (intro sint_add_no_overflow) auto
    have unf: "timer_thread_handle_tick_while now t = timer_thread_handle_tick_while now ?t1"
      using True by (subst timer_thread_handle_tick_while.simps) simp
    show ?thesis
    proof (cases "?d + ?P \<le> 0")
      case False
      then have "\<not> counter ?t1 \<le>s 0" by (simp add: word_sle_eq tick_fields sum)
      then have "timer_thread_handle_tick_while now ?t1 = Some ?t1"
        by (subst timer_thread_handle_tick_while.simps) simp
      moreover have "(- ?d) div ?P = 0" using False d Ppos by (simp add: div_pos_pos_trivial)
      ultimately show ?thesis using unf d False
        by (simp add: tick_fields sum ticks_due_pos [OF Ppos])
    next
      case le: True
      have "nat (- sint (counter ?t1)) < nat (- ?d)"
        using Ppos le by (simp add: tick_fields sum)
      moreover have "0 <s speed_usecs ?t1" using less.prems by (simp add: tick_fields)
      ultimately obtain t' where t': "timer_thread_handle_tick_while now ?t1 = Some t'"
        "speed_usecs t' = speed_usecs ?t1" "started t' = started ?t1"
        "count t' = count ?t1 + word_of_int (ticks_due (sint (counter ?t1)) (sint (speed_usecs ?t1)))"
        "sint (counter t') = sint (counter ?t1)
           + ticks_due (sint (counter ?t1)) (sint (speed_usecs ?t1)) * sint (speed_usecs ?t1)"
        "0 < sint (counter t')"
        using less.hyps [of ?t1] by blast
      have "(- ?d) div ?P = (- (?d + ?P)) div ?P + 1"
        using Ppos div_add_self2 [of ?P "- (?d + ?P)"] by simp
      then have n: "ticks_due ?d ?P = ticks_due (?d + ?P) ?P + 1"
        using d le by (simp add: ticks_due_pos [OF Ppos])
      show ?thesis using t' unf
        by (simp add: tick_fields sum n algebra_simps)
    qed
  qed
qed

lemma while_iterate:
  assumes P: "0 <s speed_usecs t"
  shows "timer_thread_handle_tick_while now t =
           Some ((catch_up_step now ^^ nat (ticks_due (sint (counter t)) (sint (speed_usecs t)))) t)"
  using P
proof (induction "nat (- sint (counter t))" arbitrary: t rule: less_induct)
  case less
  let ?d = "sint (counter t)" and ?P = "sint (speed_usecs t)"
  have Ppos: "0 < ?P" using less.prems by (simp add: word_sless_alt)
  show ?case
  proof (cases "counter t \<le>s 0")
    case False
    then have "0 < ?d" by (simp add: word_sle_eq)
    with False show ?thesis
      by (subst timer_thread_handle_tick_while.simps) (simp add: ticks_due_pos [OF Ppos])
  next
    case True
    then have d: "?d \<le> 0" by (simp add: word_sle_eq)
    let ?t1 = "catch_up_step now t"
    have f: "counter ?t1 = counter t + speed_usecs t" "speed_usecs ?t1 = speed_usecs t"
      by (simp_all add: catch_up_step_def tick_fields)
    have sum: "sint (counter t + speed_usecs t) = ?d + ?P"
      using d Ppos sint_long_bounds [of "counter t"] sint_long_bounds [of "speed_usecs t"]
      by (intro sint_add_no_overflow) auto
    have unf: "timer_thread_handle_tick_while now t = timer_thread_handle_tick_while now ?t1"
      using True by (subst timer_thread_handle_tick_while.simps) (simp add: catch_up_step_def)
    show ?thesis
    proof (cases "?d + ?P \<le> 0")
      case False
      then have "\<not> counter ?t1 \<le>s 0" by (simp add: word_sle_eq f sum)
      then have "timer_thread_handle_tick_while now ?t1 = Some ?t1"
        by (subst timer_thread_handle_tick_while.simps) simp
      moreover have "(- ?d) div ?P = 0" using False d Ppos by (simp add: div_pos_pos_trivial)
      ultimately show ?thesis using unf d
        by (simp add: ticks_due_pos [OF Ppos])
    next
      case le: True
      have m: "nat (- sint (counter ?t1)) < nat (- ?d)"
        using Ppos le by (simp add: f sum)
      have "0 <s speed_usecs ?t1" using less.prems by (simp add: f)
      from less.hyps [OF m this]
      have ih: "timer_thread_handle_tick_while now ?t1 =
                  Some ((catch_up_step now ^^ nat (ticks_due (?d + ?P) ?P)) ?t1)"
        by (simp add: f sum)
      have "(- ?d) div ?P = (- (?d + ?P)) div ?P + 1"
        using Ppos div_add_self2 [of ?P "- (?d + ?P)"] by simp
      then have n: "ticks_due ?d ?P = ticks_due (?d + ?P) ?P + 1"
        using d le by (simp add: ticks_due_pos [OF Ppos])
      have "0 \<le> ticks_due (?d + ?P) ?P" by (simp add: ticks_due_def)
      then have "nat (ticks_due ?d ?P) = Suc (nat (ticks_due (?d + ?P) ?P))"
        using n by simp
      then show ?thesis using unf ih by (simp add: funpow_swap1)
    qed
  qed
qed

lemma positive_countdowns_Cons:
  "heap w p = Some t \<Longrightarrow>
   positive_countdowns w (p # ps) =
     (if 0 < sint (counter t) then [sint (counter t)] else []) @ positive_countdowns w ps"
  by (simp add: positive_countdowns_def countdowns_of_def List.map_filter_simps)

lemma positive_countdowns_Nil: "positive_countdowns w [] = []"
  by (simp add: positive_countdowns_def countdowns_of_def List.map_filter_simps)

lemma Min_set_absorb:
  fixes a b :: int
  shows "Min (set (a # b # xs)) = Min (set (min a b # xs))"
proof (cases xs)
  case Nil
  then show ?thesis by simp
next
  case (Cons y ys)
  then show ?thesis by (simp add: min.assoc)
qed

lemma for_result:
  assumes "distinct ps"
    and "\<forall>p\<in>set ps. \<exists>t. heap w p = Some t \<and> 0 <s speed_usecs t"
  shows "\<exists>nd' w'. timer_thread_handle_tick_for e ps nd w = Inr (nd', w')
           \<and> active_timers w' = active_timers w
           \<and> debugmode w' = debugmode w \<and> timer_thread w' = timer_thread w
           \<and> destructors w' = destructors w \<and> current_time w' = current_time w
           \<and> (\<forall>p. p \<notin> set ps \<longrightarrow> heap w' p = heap w p)
           \<and> (\<forall>p\<in>set ps. \<exists>t t'. heap w p = Some t \<and> heap w' p = Some t'
                  \<and> timer_thread_handle_tick_while (current_time w)
                        (t\<lparr>counter := counter t - e\<rparr>) = Some t')
           \<and> sint nd' = Min (set (sint nd # positive_countdowns w' ps))"
  using assms
proof (induction ps arbitrary: nd w)
  case Nil
  then show ?case by (simp add: positive_countdowns_Nil)
next
  case (Cons slot slots)
  from Cons.prems obtain t where t: "heap w slot = Some t" "0 <s speed_usecs t"
    by auto
  let ?t0 = "t\<lparr>counter := counter t - e\<rparr>"
  have "0 <s speed_usecs ?t0" using t by simp
  from while_result [OF this, of "current_time w"]
  obtain t1 where t1: "timer_thread_handle_tick_while (current_time w) ?t0 = Some t1"
    "0 < sint (counter t1)" by blast
  let ?nd1 = "if 0 <s counter t1 \<and> counter t1 <s nd then counter t1 else nd"
  let ?w1 = "w\<lparr>heap := (heap w)(slot \<mapsto> t1)\<rparr>"
  have nd1: "sint ?nd1 = min (sint nd) (sint (counter t1))"
    using t1(2) by (simp add: word_sless_alt min_def)
  have slot: "slot \<notin> set slots" and dist: "distinct slots" using Cons.prems by auto
  have valid1: "\<forall>p\<in>set slots. \<exists>t. heap ?w1 p = Some t \<and> 0 <s speed_usecs t"
    using Cons.prems slot by auto
  from Cons.IH [OF dist valid1, of ?nd1]
  obtain nd' w' where r: "timer_thread_handle_tick_for e slots ?nd1 ?w1 = Inr (nd', w')"
    and fr: "active_timers w' = active_timers ?w1" "debugmode w' = debugmode ?w1"
      "timer_thread w' = timer_thread ?w1" "destructors w' = destructors ?w1"
      "current_time w' = current_time ?w1"
    and out: "\<forall>p. p \<notin> set slots \<longrightarrow> heap w' p = heap ?w1 p"
    and ins: "\<forall>p\<in>set slots. \<exists>t t'. heap ?w1 p = Some t \<and> heap w' p = Some t'
                  \<and> timer_thread_handle_tick_while (current_time ?w1)
                        (t\<lparr>counter := counter t - e\<rparr>) = Some t'"
    and mn: "sint nd' = Min (set (sint ?nd1 # positive_countdowns w' slots))"
    by blast
  have eq: "timer_thread_handle_tick_for e (slot # slots) nd w = Inr (nd', w')"
    using t t1 r by simp
  have hslot: "heap w' slot = Some t1" using out slot by simp
  have "positive_countdowns w' (slot # slots) = sint (counter t1) # positive_countdowns w' slots"
    using positive_countdowns_Cons [OF hslot] t1(2) by simp
  then have mn': "sint nd' = Min (set (sint nd # positive_countdowns w' (slot # slots)))"
    using mn nd1 Min_set_absorb [of "sint nd" "sint (counter t1)"] by simp
  have out': "\<forall>p. p \<notin> set (slot # slots) \<longrightarrow> heap w' p = heap w p"
    using out by simp
  have ins': "\<forall>p\<in>set (slot # slots). \<exists>t t'. heap w p = Some t \<and> heap w' p = Some t'
                  \<and> timer_thread_handle_tick_while (current_time w)
                        (t\<lparr>counter := counter t - e\<rparr>) = Some t'"
  proof
    fix p assume "p \<in> set (slot # slots)"
    then consider "p = slot" | "p \<in> set slots" "p \<noteq> slot" using slot by auto
    then show "\<exists>t t'. heap w p = Some t \<and> heap w' p = Some t'
                  \<and> timer_thread_handle_tick_while (current_time w)
                        (t\<lparr>counter := counter t - e\<rparr>) = Some t'"
    proof cases
      case 1
      then show ?thesis using t t1 hslot by simp
    next
      case 2
      then show ?thesis using ins by auto
    qed
  qed
  show ?case
    using eq fr out' ins' mn' by simp
qed

lemma sint_sub_no_overflow:
  fixes a b :: long
  assumes "- (2 ^ 63) \<le> sint a - sint b" "sint a - sint b < 2 ^ 63"
  shows "sint (a - b) = sint a - sint b"
  using assms by (simp add: sint_word_ariths signed_take_bit_int_eq_self)


lemma active_periods_positive_iff:
  "active_periods_positive w ps \<longleftrightarrow>
     (\<forall>p\<in>set ps. \<exists>t. heap w p = Some t \<and> 0 <s speed_usecs t)"
  by (auto simp: active_periods_positive_def list_all_iff split: option.splits)

lemma pass_result:
  assumes "distinct (active_timers w)"
    and "active_periods_positive w (active_timers w)"
  shows "\<exists>r w'. timer_thread_handle_tick e w = Inr (r, w')
           \<and> active_timers w' = active_timers w
           \<and> active_periods_positive w' (active_timers w')
           \<and> (\<forall>p\<in>set (active_timers w). \<exists>t t'. heap w p = Some t \<and> heap w' p = Some t'
                  \<and> timer_thread_handle_tick_while (current_time w)
                        (t\<lparr>counter := counter t - e\<rparr>) = Some t')
           \<and> sint r = next_sleep_interval w'"
proof -
  have valid: "\<forall>p\<in>set (active_timers w). \<exists>t. heap w p = Some t \<and> 0 <s speed_usecs t"
    using assms(2) by (simp add: active_periods_positive_iff)
  from for_result [OF assms(1) valid, of e "0x8000"]
  obtain r w' where r: "timer_thread_handle_tick_for e (active_timers w) 0x8000 w = Inr (r, w')"
    and reg: "active_timers w' = active_timers w"
    and ins: "\<forall>p\<in>set (active_timers w). \<exists>t t'. heap w p = Some t \<and> heap w' p = Some t'
                  \<and> timer_thread_handle_tick_while (current_time w)
                        (t\<lparr>counter := counter t - e\<rparr>) = Some t'"
    and mn: "sint r = Min (set (sint (0x8000 :: long) # positive_countdowns w' (active_timers w)))"
    by blast
  have pos: "active_periods_positive w' (active_timers w')"
    unfolding active_periods_positive_iff reg
  proof
    fix p assume p: "p \<in> set (active_timers w)"
    with ins obtain t t' where t: "heap w p = Some t" "heap w' p = Some t'"
      "timer_thread_handle_tick_while (current_time w) (t\<lparr>counter := counter t - e\<rparr>) = Some t'"
      by blast
    from valid p t(1) have "0 <s speed_usecs (t\<lparr>counter := counter t - e\<rparr>)" by auto
    from while_result [OF this, of "current_time w"] t(3)
    have "speed_usecs t' = speed_usecs t" by auto
    with valid p t show "\<exists>t. heap w' p = Some t \<and> 0 <s speed_usecs t" by auto
  qed
  show ?thesis
    using r reg ins mn pos
    by (simp add: timer_thread_handle_tick_def next_sleep_interval_def)
qed

lemma for_positive:
  assumes "\<forall>p\<in>set ps. \<exists>t. heap w p = Some t \<and> 0 <s speed_usecs t"
  shows "\<exists>nd' w'. timer_thread_handle_tick_for e ps nd w = Inr (nd', w')
           \<and> active_timers w' = active_timers w
           \<and> (\<forall>p. p \<notin> set ps \<longrightarrow> heap w' p = heap w p)
           \<and> (\<forall>p\<in>set ps. \<exists>t'. heap w' p = Some t' \<and> 0 < sint (counter t'))
           \<and> (0 < sint nd \<longrightarrow> 0 < sint nd') \<and> sint nd' \<le> sint nd"
  using assms
proof (induction ps arbitrary: nd w)
  case Nil
  then show ?case by simp
next
  case (Cons slot slots)
  from Cons.prems obtain t where t: "heap w slot = Some t" "0 <s speed_usecs t"
    by auto
  let ?t0 = "t\<lparr>counter := counter t - e\<rparr>"
  have "0 <s speed_usecs ?t0" using t by simp
  from while_result [OF this, of "current_time w"]
  obtain t1 where t1: "timer_thread_handle_tick_while (current_time w) ?t0 = Some t1"
    "0 < sint (counter t1)" "speed_usecs t1 = speed_usecs t" by auto
  let ?nd1 = "if 0 <s counter t1 \<and> counter t1 <s nd then counter t1 else nd"
  let ?w1 = "w\<lparr>heap := (heap w)(slot \<mapsto> t1)\<rparr>"
  have nd1: "sint ?nd1 \<le> sint nd" "0 < sint nd \<longrightarrow> 0 < sint ?nd1"
    using t1(2) by (simp_all add: word_sless_alt)
  have valid1: "\<forall>p\<in>set slots. \<exists>t. heap ?w1 p = Some t \<and> 0 <s speed_usecs t"
    using Cons.prems t t1(3) by auto
  from Cons.IH [OF valid1, of ?nd1]
  obtain nd' w' where r: "timer_thread_handle_tick_for e slots ?nd1 ?w1 = Inr (nd', w')"
    and reg: "active_timers w' = active_timers ?w1"
    and out: "\<forall>p. p \<notin> set slots \<longrightarrow> heap w' p = heap ?w1 p"
    and ins: "\<forall>p\<in>set slots. \<exists>t'. heap w' p = Some t' \<and> 0 < sint (counter t')"
    and bd: "0 < sint ?nd1 \<longrightarrow> 0 < sint nd'" "sint nd' \<le> sint ?nd1"
    by blast
  have eq: "timer_thread_handle_tick_for e (slot # slots) nd w = Inr (nd', w')"
    using t t1 r by simp
  have hslot: "\<exists>t'. heap w' slot = Some t' \<and> 0 < sint (counter t')"
  proof (cases "slot \<in> set slots")
    case True
    then show ?thesis using ins by blast
  next
    case False
    then show ?thesis using out t1(2) by simp
  qed
  have "\<forall>p. p \<notin> set (slot # slots) \<longrightarrow> heap w' p = heap w p"
    using out by simp
  moreover have "\<forall>p\<in>set (slot # slots). \<exists>t'. heap w' p = Some t' \<and> 0 < sint (counter t')"
    using hslot ins by auto
  moreover have "0 < sint nd \<longrightarrow> 0 < sint nd'" "sint nd' \<le> sint nd"
    using bd nd1 by linarith+
  ultimately show ?case using eq reg by simp
qed

lemma proc_loop_result:
  assumes "distinct (active_timers w)"
    and "active_periods_positive w (active_timers w)"
  shows "\<exists>sleeps w2. timer_thread_proc_loop i elapsed w = Inr (sleeps, w2)
           \<and> length sleeps = length elapsed
           \<and> (elapsed \<noteq> [] \<longrightarrow> hd sleeps = i)"
  using assms
proof (induction elapsed arbitrary: i w)
  case Nil
  then show ?case by simp
next
  case (Cons e elapsed)
  from pass_result [OF Cons.prems, of e]
  obtain r w' where r: "timer_thread_handle_tick e w = Inr (r, w')"
    "active_timers w' = active_timers w" "active_periods_positive w' (active_timers w')"
    by blast
  then have d: "distinct (active_timers w')" using Cons.prems by simp
  from Cons.IH [OF d r(3), of r]
  obtain sleeps w2 where s: "timer_thread_proc_loop r elapsed w' = Inr (sleeps, w2)"
    "length sleeps = length elapsed"
    by blast
  have "timer_thread_proc_loop i (e # elapsed) w = Inr (i # sleeps, w2)"
    using r(1) s(1) by simp
  then show ?case using s(2) by simp
qed

lemma while_started:
  assumes r: "timer_thread_handle_tick_while now t = Some t'"
  shows "started t' = started t"
proof (rule timer_thread_handle_tick_while.raw_induct
    [where P = "\<lambda>now t t'. started t' = started t", OF _ r])
  fix f now timer y
  assume ih: "\<And>now timer y. f now timer = Some y \<Longrightarrow> started y = started timer"
    and eq: "(if counter timer \<le>s 0
              then f now (timer_handle_tick now
                     (timer\<lparr>counter := counter timer + speed_usecs timer\<rparr>))
              else Some timer) = Some y"
  show "started y = started timer"
  proof (cases "counter timer \<le>s 0")
    case True
    with eq have "f now (timer_handle_tick now
                     (timer\<lparr>counter := counter timer + speed_usecs timer\<rparr>)) = Some y"
      by simp
    from ih [OF this] show ?thesis by (simp add: tick_fields)
  next
    case False
    with eq show ?thesis by simp
  qed
qed

lemma count_list_distinct:
  "distinct xs \<Longrightarrow> count_list xs x = (if x \<in> set xs then 1 else 0)"
  by (induction xs) auto

lemma for_started:
  assumes "timer_thread_handle_tick_for e ps nd w = Inr (nd', w')"
  shows "active_timers w' = active_timers w
       \<and> (\<forall>p. (\<exists>t. heap w' p = Some t \<and> started t) \<longleftrightarrow> (\<exists>t. heap w p = Some t \<and> started t))
       \<and> (\<forall>p. heap w' p = None \<longleftrightarrow> heap w p = None)"
  using assms
proof (induction ps arbitrary: nd w)
  case Nil
  then show ?case by simp
next
  case (Cons slot slots)
  from Cons.prems obtain t where t: "heap w slot = Some t"
    by (auto split: option.splits)
  with Cons.prems obtain t1 where
    t1: "timer_thread_handle_tick_while (current_time w) (t\<lparr>counter := counter t - e\<rparr>) = Some t1"
    by (auto split: option.splits)
  let ?nd1 = "if 0 <s counter t1 \<and> counter t1 <s nd then counter t1 else nd"
  let ?w1 = "w\<lparr>heap := (heap w)(slot \<mapsto> t1)\<rparr>"
  have r: "timer_thread_handle_tick_for e slots ?nd1 ?w1 = Inr (nd', w')"
    using Cons.prems t t1 by simp
  have st: "started t1 = started t" using while_started [OF t1] by simp
  from Cons.IH [OF r]
  have ih: "active_timers w' = active_timers ?w1"
    "\<And>p. (\<exists>t. heap w' p = Some t \<and> started t) \<longleftrightarrow> (\<exists>t. heap ?w1 p = Some t \<and> started t)"
    "\<And>p. heap w' p = None \<longleftrightarrow> heap ?w1 p = None"
    by blast+
  have "(\<exists>t. heap ?w1 p = Some t \<and> started t) \<longleftrightarrow> (\<exists>t. heap w p = Some t \<and> started t)" for p
    using t st by (cases "p = slot") auto
  moreover have "heap ?w1 p = None \<longleftrightarrow> heap w p = None" for p
    using t by (cases "p = slot") auto
  ultimately show ?case using ih by simp
qed

lemma registry_inv_init: "registry_inv (initial_world dbg now)"
  by (simp add: registry_inv_def initial_world_def)

lemma registry_inv_install:
  assumes "registry_inv w"
    and "case malloc_result of None \<Rightarrow> True | Some p \<Rightarrow> heap w p = None"
    and "al_install_timer speed_msecs malloc_result es_init w = Inr (r, w')"
  shows "registry_inv w'"
  using assms
  by (auto simp: registry_inv_def al_install_timer_def split: if_splits option.splits)

lemma registry_inv_start:
  assumes "registry_inv w" and "al_start_timer this w = Inr w'"
  shows "registry_inv w'"
  using assms
  by (auto simp: registry_inv_def al_start_timer_def Let_def split: if_splits option.splits)

lemma stop_registry:
  assumes "al_stop_timer this w = Inr w'" and "heap w this = Some t" and "started t"
  shows "active_timers w' = remove1 this (active_timers w)"
    and "heap w' = (heap w)(this \<mapsto> t\<lparr>started := False\<rparr>)"
  using assms
  by (auto simp: al_stop_timer_def al_vector_find_and_delete_def Let_def split: if_splits)

lemma registry_inv_stop:
  assumes "registry_inv w" and "al_stop_timer this w = Inr w'"
  shows "registry_inv w'"
proof -
  from assms(2) obtain t where t: "heap w this = Some t"
    by (auto simp: al_stop_timer_def split: option.splits)
  show ?thesis
  proof (cases "started t")
    case False
    with assms t show ?thesis by (simp add: al_stop_timer_def)
  next
    case True
    note s = stop_registry [OF assms(2) t True]
    have d: "distinct (active_timers w)" using assms(1) by (simp add: registry_inv_def)
    have m: "p \<in> set (active_timers w) \<longleftrightarrow> (\<exists>t. heap w p = Some t \<and> started t)" for p
      using assms(1) by (simp add: registry_inv_def)
    have "p \<in> set (active_timers w') \<longleftrightarrow> (\<exists>t. heap w' p = Some t \<and> started t)" for p
      using d m [of p] by (cases "p = this") (simp_all add: s)
    then show ?thesis using d by (simp add: registry_inv_def s(1))
  qed
qed

lemma registry_inv_uninstall:
  assumes "registry_inv w" and "al_uninstall_timer this w = Inr w'"
  shows "registry_inv w'"
proof -
  from assms(2) obtain w1 where w1: "al_stop_timer this w = Inr w1"
    and w': "w' = w1\<lparr>destructors := destructors w1 - {this}, heap := (heap w1)(this := None)\<rparr>"
    by (auto simp: al_uninstall_timer_def split: sum.splits)
  have inv1: "registry_inv w1" using registry_inv_stop [OF assms(1) w1] .
  have "\<not> (\<exists>t. heap w1 this = Some t \<and> started t)"
    using w1 by (auto simp: al_stop_timer_def Let_def split: if_splits option.splits)
  then show ?thesis using inv1 unfolding w' by (auto simp: registry_inv_def)
qed

lemma registry_inv_set_speed:
  assumes "registry_inv w" and "al_timer_set_speed this new_speed_msecs w = Inr w'"
  shows "registry_inv w'"
  using assms
  by (auto simp: registry_inv_def al_timer_set_speed_def Let_def split: if_splits option.splits)

lemma registry_inv_set_count:
  assumes "registry_inv w" and "al_timer_set_count this new_count w = Inr w'"
  shows "registry_inv w'"
  using assms
  by (auto simp: registry_inv_def al_timer_set_count_def split: if_splits option.splits)

lemma registry_inv_tick:
  assumes "registry_inv w" and "timer_thread_handle_tick interval w = Inr (r, w')"
  shows "registry_inv w'"
  using assms for_started [of interval "active_timers w" "0x8000" w r w']
  by (simp add: registry_inv_def timer_thread_handle_tick_def)

lemma registry_inv_environment:
  assumes "registry_inv w" and "heap w p = Some t"
  shows "registry_inv (w\<lparr>heap := (heap w)(p \<mapsto> t\<lparr>es := src\<rparr>), current_time := now\<rparr>)"
  using assms by (auto simp: registry_inv_def)

lemma reachable_registry_inv: "reachable w \<Longrightarrow> registry_inv w"
proof (induction rule: reachable.induct)
  case (init dbg now)
  show ?case by (rule registry_inv_init)
next
  case (install w malloc_result speed_msecs es_init r w')
  then show ?case by (blast intro: registry_inv_install)
next
  case (uninstall w this w')
  then show ?case by (blast intro: registry_inv_uninstall)
next
  case (start w this w')
  then show ?case by (blast intro: registry_inv_start)
next
  case (stop w this w')
  then show ?case by (blast intro: registry_inv_stop)
next
  case (set_speed w this new_speed_msecs w')
  then show ?case by (blast intro: registry_inv_set_speed)
next
  case (set_count w this new_count w')
  then show ?case by (blast intro: registry_inv_set_count)
next
  case (tick w interval r w')
  then show ?case by (blast intro: registry_inv_tick)
next
  case (environment w p t src now)
  then show ?case by (blast intro: registry_inv_environment)
qed

lemma reachable_example_world: "reachable example_world"
proof -
  let ?es = "\<lparr>needs_event = True, unused_events = 2, emitted = []\<rparr>"
  let ?w1 = "\<lparr>debugmode = True,
              heap = [1 \<mapsto> \<lparr>es = ?es, started = False, speed_usecs = 1000000,
                             count = 0, counter = 0\<rparr>],
              active_timers = [], timer_thread = False, destructors = {1},
              current_time = 0\<rparr>"
  have "al_install_timer 1000 (Some 1) ?es (initial_world True 0) = Inr (Some 1, ?w1)"
    by (simp add: al_install_timer_def initial_world_def word_sless_alt)
  then have r1: "reachable ?w1"
    by (rule reachable.install [OF reachable.init, rotated]) (simp add: initial_world_def)
  have "al_start_timer 1 ?w1 = Inr example_world"
    by (simp add: al_start_timer_def example_world_def example_timer_def Let_def)
  with r1 show ?thesis by (rule reachable.start)
qed

lemma example_world_hyps:
  "distinct (active_timers example_world)"
  "active_periods_positive example_world (active_timers example_world)"
  "1 \<in> set (active_timers example_world)"
  "heap example_world 1 = Some example_timer"
  by (simp_all add: example_world_def example_timer_def active_periods_positive_def
      word_sless_alt)

lemma sint_msecs_to_usecs:
  fixes s :: long
  assumes "0 <s s" and "s \<le>s 9223372036854775"
  shows "sint (s * 1000) = 1000 * sint s"
proof -
  have "0 < sint s" "sint s \<le> 9223372036854775"
    using assms by (simp_all add: word_sless_alt word_sle_eq)
  then have "signed_take_bit 63 (sint s * 1000) = sint s * 1000"
    by (intro signed_take_bit_int_eq_self) auto
  then show ?thesis by (simp add: sint_word_ariths)
qed

lemma long_div_round_trip:
  fixes s :: long
  assumes "0 <s s" and "s \<le>s 9223372036854775"
  shows "long_div (s * 1000) 1000 = s"
proof -
  have pos: "0 < sint s" using assms(1) by (simp add: word_sless_alt)
  have "sint (s * 1000) sdiv sint (1000 :: long) = sint s"
    using pos by (simp add: sint_msecs_to_usecs [OF assms] signed_divide_int_def)
  then show ?thesis by (simp add: long_div_def)
qed

section \<open>The claims of the specification\<close>

text \<open>
  Claim C1 (catch-up loop). Let the registry hold no address twice (as in every
  reachable state) and only live timers with a strictly positive period, and let \<open>this\<close> be one of them, with countdown
  \<open>c = counter t\<close> and period \<open>P = speed_usecs t\<close>. One pass of the driver with
  measured elapsed time \<open>e\<close> returns, and fires for this timer exactly
  \<open>ticks_due (c - e) P\<close> ticks, that is \<open>max 0 (\<lfloor>(e - c) / P\<rfloor> + 1)\<close> when
  \<open>c - e \<le> 0\<close> and none otherwise: \<^verbatim>\<open>count\<close> grows by that number. The countdown
  left is \<open>c - e\<close> plus that number of periods, and it is strictly positive. Here
  \<open>c - e\<close> is the subtraction the code performs on \<^verbatim>\<open>long\<close>; it is the
  mathematical difference whenever that fits a \<^verbatim>\<open>long\<close>. There is no cap on the
  number: for a timer whose countdown is one full period, the ticks fired are
  \<open>\<lfloor>e / P\<rfloor>\<close>, so a stall of 3.5 periods fires exactly 3. The timer after the
  pass is the timer with the elapsed time subtracted, taken through the body of the
  \<^verbatim>\<open>while\<close> loop exactly that many times.
\<close>

theorem C1_catch_up_ticks:
  assumes "distinct (active_timers w)"
    and "active_periods_positive w (active_timers w)"
    and "this \<in> set (active_timers w)"
    and "heap w this = Some t"
  shows "(\<exists>r w' t'. timer_thread_handle_tick e w = Inr (r, w') \<and> heap w' this = Some t'
            \<and> count t' = count t
                 + word_of_int (ticks_due (sint (counter t - e)) (sint (speed_usecs t)))
            \<and> sint (counter t') = sint (counter t - e)
                 + ticks_due (sint (counter t - e)) (sint (speed_usecs t)) * sint (speed_usecs t)
            \<and> 0 < sint (counter t')
            \<and> speed_usecs t' = speed_usecs t
            \<and> t' = (catch_up_step (current_time w)
                       ^^ nat (ticks_due (sint (counter t - e)) (sint (speed_usecs t))))
                     (t\<lparr>counter := counter t - e\<rparr>))
       \<and> (- (2 ^ 63) \<le> sint (counter t) - sint e \<and> sint (counter t) - sint e < 2 ^ 63
            \<longrightarrow> sint (counter t - e) = sint (counter t) - sint e)
       \<and> (counter t = speed_usecs t \<and> 0 \<le> sint e
            \<longrightarrow> ticks_due (sint (counter t - e)) (sint (speed_usecs t))
                  = sint e div sint (speed_usecs t))"
proof -
  have P: "0 <s speed_usecs t"
    using assms(2,3,4) by (auto simp: active_periods_positive_iff)
  then have Ppos: "0 < sint (speed_usecs t)" by (simp add: word_sless_alt)
  let ?t0 = "t\<lparr>counter := counter t - e\<rparr>"
  from pass_result [OF assms(1,2), of e] assms(3,4)
  obtain r w' t' where r: "timer_thread_handle_tick e w = Inr (r, w')"
    "heap w' this = Some t'"
    "timer_thread_handle_tick_while (current_time w) ?t0 = Some t'"
    by fastforce
  have P0: "0 <s speed_usecs ?t0" using P by simp
  from while_iterate [OF P0, of "current_time w"] r(3)
  have I: "t' = (catch_up_step (current_time w)
                   ^^ nat (ticks_due (sint (counter t - e)) (sint (speed_usecs t)))) ?t0"
    by simp
  from while_result [OF P0, of "current_time w"] r(3)
  have A: "count t' = count t
                 + word_of_int (ticks_due (sint (counter t - e)) (sint (speed_usecs t)))"
    "sint (counter t') = sint (counter t - e)
                 + ticks_due (sint (counter t - e)) (sint (speed_usecs t)) * sint (speed_usecs t)"
    "0 < sint (counter t')" "speed_usecs t' = speed_usecs t"
    by auto
  have B: "sint (counter t - e) = sint (counter t) - sint e"
    if "- (2 ^ 63) \<le> sint (counter t) - sint e" "sint (counter t) - sint e < 2 ^ 63"
    using that by (rule sint_sub_no_overflow)
  have C: "ticks_due (sint (counter t - e)) (sint (speed_usecs t)) = sint e div sint (speed_usecs t)"
    if c: "counter t = speed_usecs t" and e: "0 \<le> sint e"
  proof -
    let ?P = "sint (speed_usecs t)"
    have "sint (speed_usecs t - e) = ?P - sint e"
      using e Ppos sint_long_bounds [of e] sint_long_bounds [of "speed_usecs t"]
      by (intro sint_sub_no_overflow) auto
    then have "sint (counter t - e) = ?P - sint e"
      using c by simp
    moreover have "(sint e - ?P) div ?P + 1 = sint e div ?P"
      using Ppos div_add_self2 [of ?P "sint e - ?P"] by simp
    moreover have "sint e div ?P = 0" if "\<not> ?P - sint e \<le> 0"
      using that e by (simp add: div_pos_pos_trivial)
    ultimately show ?thesis
      by (simp add: ticks_due_pos [OF Ppos])
  qed
  show ?thesis using r(1,2) A I B C by blast
qed

text \<open>The same at a concrete state.\<close>

theorem C1_catch_up_ticks_witness:
  "distinct (active_timers example_world)
   \<and> active_periods_positive example_world (active_timers example_world)
   \<and> 1 \<in> set (active_timers example_world)
   \<and> heap example_world 1 = Some example_timer
   \<and> counter example_timer = speed_usecs example_timer
   \<and> sint (3500000 :: long) div sint (speed_usecs example_timer) = 3
   \<and> (\<exists>r w' t'. timer_thread_handle_tick 3500000 example_world = Inr (r, w')
          \<and> heap w' 1 = Some t' \<and> count t' = count example_timer + 3
          \<and> sint (counter t') = 500000)"
proof -
  have d: "sint (counter example_timer - 3500000) = - 2500000"
    and P: "sint (speed_usecs example_timer) = 1000000"
    and c: "counter example_timer = speed_usecs example_timer"
    by (simp_all add: example_timer_def)
  have n: "ticks_due (- 2500000) 1000000 = 3"
    by (simp add: ticks_due_def)
  from C1_catch_up_ticks [OF example_world_hyps, of 3500000]
  obtain r w' t' where "timer_thread_handle_tick 3500000 example_world = Inr (r, w')"
    "heap w' 1 = Some t'"
    "count t' = count example_timer
       + word_of_int (ticks_due (sint (counter example_timer - 3500000))
                        (sint (speed_usecs example_timer)))"
    "sint (counter t') = sint (counter example_timer - 3500000)
       + ticks_due (sint (counter example_timer - 3500000)) (sint (speed_usecs example_timer))
         * sint (speed_usecs example_timer)"
    by blast
  then have "\<exists>r w' t'. timer_thread_handle_tick 3500000 example_world = Inr (r, w')
          \<and> heap w' 1 = Some t' \<and> count t' = count example_timer + 3
          \<and> sint (counter t') = 500000"
    by (simp add: d P n)
  moreover have "sint (3500000 :: long) div sint (speed_usecs example_timer) = 3"
    by (simp add: P)
  ultimately show ?thesis
    using example_world_hyps c by blast
qed



text \<open>
  Claim C3 (sleep interval). With a registry of distinct (as in every reachable
  state) live timers of positive period, one pass returns the least of 32768 and of the positive countdowns the
  timers have after the pass; in particular 32768 for an empty registry. The thread
  procedure sleeps 32768 microseconds first, and next the interval the first pass
  returned.
\<close>

theorem C3_sleep_interval:
  assumes "distinct (active_timers w)"
    and "active_periods_positive w (active_timers w)"
  shows "\<exists>r w'. timer_thread_handle_tick e w = Inr (r, w')
           \<and> sint r = next_sleep_interval w'
           \<and> (active_timers w = [] \<longrightarrow> r = 0x8000)
           \<and> (\<exists>sleeps w2. timer_thread_proc (e # elapsed) w = Inr (sleeps, w2)
                 \<and> length sleeps = Suc (length elapsed)
                 \<and> hd sleeps = 0x8000
                 \<and> (elapsed \<noteq> [] \<longrightarrow> sleeps ! 1 = r))"
proof -
  from pass_result [OF assms, of e]
  obtain r w' where r: "timer_thread_handle_tick e w = Inr (r, w')"
    "sint r = next_sleep_interval w'"
    "active_timers w' = active_timers w" "active_periods_positive w' (active_timers w')"
    by blast
  have empty: "r = 0x8000" if "active_timers w = []"
    using that r(1) by (simp add: timer_thread_handle_tick_def)
  have d: "distinct (active_timers w')" using assms(1) r(3) by simp
  from proc_loop_result [OF d r(4), of r elapsed]
  obtain sleeps w2 where s: "timer_thread_proc_loop r elapsed w' = Inr (sleeps, w2)"
    "length sleeps = length elapsed" "elapsed \<noteq> [] \<longrightarrow> hd sleeps = r"
    by blast
  have p: "timer_thread_proc (e # elapsed) w = Inr (0x8000 # sleeps, w2)"
    using r(1) s(1) by (simp add: timer_thread_proc_def)
  have "(0x8000 # sleeps) ! 1 = r" if "elapsed \<noteq> []"
    using that s(2,3) by (cases sleeps) auto
  then show ?thesis using r(1,2) empty p s(2) by simp
qed

text \<open>The same at a concrete state.\<close>

theorem C3_sleep_interval_witness:
  "distinct (active_timers example_world)
   \<and> active_periods_positive example_world (active_timers example_world)
   \<and> (\<exists>r w'. timer_thread_handle_tick 990000 example_world = Inr (r, w')
          \<and> sint r = next_sleep_interval w' \<and> r = 10000
          \<and> (\<exists>sleeps w2. timer_thread_proc [990000, 5000] example_world = Inr (sleeps, w2)
                \<and> sleeps = [32768, 10000]))"
proof -
  let ?w' = "example_world\<lparr>heap := [1 \<mapsto> example_timer\<lparr>counter := 10000\<rparr>]\<rparr>"
  have r: "timer_thread_handle_tick 990000 example_world = Inr (10000, ?w')"
    by (simp add: timer_thread_handle_tick_def example_world_def example_timer_def
        timer_thread_handle_tick_while.simps word_sless_alt word_sle_eq)
  from C3_sleep_interval [OF example_world_hyps(1,2), of 990000 "[5000]"]
  obtain sleeps w2 where s: "sint (10000 :: long) = next_sleep_interval ?w'"
    "timer_thread_proc [990000, 5000] example_world = Inr (sleeps, w2)"
    "length sleeps = 2" "hd sleeps = 0x8000" "sleeps ! 1 = 10000"
    by (auto simp: r)
  then have "sleeps = [32768, 10000]"
    by (cases sleeps; cases "tl sleeps") auto
  with s r show ?thesis using example_world_hyps(1,2) by simp
qed

text \<open>
  Claim C4 (registry membership). In every state the program can reach, a live timer
  has its \<^verbatim>\<open>started\<close> flag set if and only if its address occurs exactly once in
  \<^verbatim>\<open>active_timers\<close>; an address that is not a live timer does not occur there. This
  holds after \<^verbatim>\<open>al_install_timer\<close> and is kept by every call of
  \<^verbatim>\<open>al_start_timer\<close> and \<^verbatim>\<open>al_stop_timer\<close> (and by every other step), and a pass of
  the driver thread leaves the registry as it was.
\<close>

theorem C4_registry_membership:
  assumes "reachable w"
  shows "(\<forall>p t. heap w p = Some t \<longrightarrow>
            (started t \<longleftrightarrow> count_list (active_timers w) p = 1))
       \<and> (\<forall>p. heap w p = None \<longrightarrow> count_list (active_timers w) p = 0)
       \<and> (\<forall>e r w'. timer_thread_handle_tick e w = Inr (r, w')
            \<longrightarrow> active_timers w' = active_timers w)"
proof -
  have inv: "registry_inv w" using assms by (rule reachable_registry_inv)
  then have c: "count_list (active_timers w) p = (if p \<in> set (active_timers w) then 1 else 0)" for p
    by (simp add: registry_inv_def count_list_distinct)
  have "started t \<longleftrightarrow> count_list (active_timers w) p = 1" if "heap w p = Some t" for p t
    using inv that by (auto simp: c registry_inv_def)
  moreover have "count_list (active_timers w) p = 0" if "heap w p = None" for p
    using inv that by (auto simp: c registry_inv_def)
  moreover have "active_timers w' = active_timers w"
    if "timer_thread_handle_tick e w = Inr (r, w')" for e r w'
    using for_started [of e "active_timers w" "0x8000" w r w'] that
    by (simp add: timer_thread_handle_tick_def)
  ultimately show ?thesis by blast
qed

text \<open>The same at a concrete state.\<close>

theorem C4_registry_membership_witness:
  "reachable example_world
   \<and> heap example_world 1 = Some example_timer
   \<and> (started example_timer \<longleftrightarrow> count_list (active_timers example_world) 1 = 1)"
  using C4_registry_membership [OF reachable_example_world] reachable_example_world
  by (simp add: example_world_def)

text \<open>
  Claim C5 (Start). On a timer that is already started \<^verbatim>\<open>al_start_timer\<close> changes
  nothing at all. On a timer that is not started it sets \<^verbatim>\<open>started\<close>, sets the
  countdown to the timer's current period, and appends the timer to the registry;
  the count, the period, the event source and every other timer are unchanged.
\<close>

theorem C5_start_timer:
  assumes "heap w this = Some t"
  shows "(started t \<longrightarrow> al_start_timer this w = Inr w)
       \<and> (\<not> started t \<longrightarrow>
            (\<exists>w' t'. al_start_timer this w = Inr w' \<and> heap w' this = Some t'
               \<and> started t' \<and> counter t' = speed_usecs t
               \<and> speed_usecs t' = speed_usecs t \<and> count t' = count t \<and> es t' = es t
               \<and> active_timers w' = active_timers w @ [this]
               \<and> (\<forall>p. p \<noteq> this \<longrightarrow> heap w' p = heap w p)))"
  using assms by (simp add: al_start_timer_def Let_def)

text \<open>The same at a concrete state.\<close>

theorem C5_start_timer_witness:
  "heap example_world 1 = Some example_timer \<and> started example_timer
   \<and> al_start_timer 1 example_world = Inr example_world
   \<and> (\<exists>w'. al_start_timer 1
               (example_world\<lparr>heap := [1 \<mapsto> example_timer\<lparr>started := False, counter := 7\<rparr>],
                               active_timers := []\<rparr>) = Inr w'
          \<and> heap w' 1 = Some example_timer \<and> active_timers w' = [1])"
proof -
  let ?t = "example_timer\<lparr>started := False, counter := 7\<rparr>"
  let ?w = "example_world\<lparr>heap := [1 \<mapsto> ?t], active_timers := []\<rparr>"
  have h: "heap ?w 1 = Some ?t" by simp
  have t: "t' = example_timer"
    if "started t'" "counter t' = speed_usecs ?t" "speed_usecs t' = speed_usecs ?t"
      "count t' = count ?t" "es t' = es ?t" for t'
    using that by (cases t') (simp add: example_timer_def)
  from C5_start_timer [OF example_world_hyps(4)] C5_start_timer [OF h]
  show ?thesis
    using example_world_hyps(4) t by (auto simp: example_timer_def)
qed

text \<open>
  Claim C6 (Create), as amended. For a positive speed, \<^verbatim>\<open>al_install_timer\<close> hands
  no timer to the caller if and only if the allocation failed. When the allocation
  succeeds the new timer is not started, its count is 0 and its period is
  \<open>speed_msecs * 1000\<close> computed on \<^verbatim>\<open>long\<close>; this is the requested period, the
  integer \<open>1000 * speed_msecs\<close> microseconds, for every speed with
  \<open>0 < speed_msecs \<le> 9223372036854775\<close> (the speeds whose product with 1000 fits a
  \<^verbatim>\<open>long\<close>). The registry and the other timers are unchanged.
\<close>

theorem C6_install_timer:
  assumes "0 <s speed_msecs"
  shows "(install_failed (al_install_timer speed_msecs malloc_result es_init w)
            \<longleftrightarrow> malloc_result = None)
       \<and> (\<forall>p. malloc_result = Some p \<longrightarrow>
            (\<exists>w' t. al_install_timer speed_msecs malloc_result es_init w = Inr (Some p, w')
               \<and> heap w' p = Some t \<and> \<not> started t \<and> count t = 0
               \<and> speed_usecs t = speed_msecs * 1000
               \<and> (speed_msecs \<le>s 9223372036854775
                    \<longrightarrow> sint (speed_usecs t) = 1000 * sint speed_msecs)
               \<and> al_timer_is_started p w' = Inr False
               \<and> al_timer_get_count p w' = Inr 0
               \<and> active_timers w' = active_timers w
               \<and> (\<forall>q. q \<noteq> p \<longrightarrow> heap w' q = heap w q)))"
proof -
  have "sint (speed_msecs * 1000) = 1000 * sint speed_msecs"
    if "speed_msecs \<le>s 9223372036854775"
  proof -
    have "0 < sint speed_msecs" "sint speed_msecs \<le> 9223372036854775"
      using assms that by (simp_all add: word_sless_alt word_sle_eq)
    then have "signed_take_bit 63 (sint speed_msecs * 1000) = sint speed_msecs * 1000"
      by (intro signed_take_bit_int_eq_self) auto
    then show ?thesis by (simp add: sint_word_ariths)
  qed
  then show ?thesis
    using assms
    by (auto simp: al_install_timer_def install_failed_def al_timer_is_started_def
        al_timer_get_count_def split: option.splits)
qed

text \<open>The same at a concrete state.\<close>

theorem C6_install_timer_witness:
  "0 <s (1000 :: long)
   \<and> install_failed (al_install_timer 1000 None \<lparr>needs_event = False, unused_events = 0, emitted = []\<rparr>
         (initial_world False 0))
   \<and> (\<exists>w' t. al_install_timer 1000 (Some 1) \<lparr>needs_event = False, unused_events = 0, emitted = []\<rparr>
                 (initial_world False 0) = Inr (Some 1, w')
          \<and> heap w' 1 = Some t \<and> \<not> started t \<and> count t = 0 \<and> speed_usecs t = 1000000)"
proof -
  have p: "0 <s (1000 :: long)" by (simp add: word_sless_alt)
  let ?es = "\<lparr>needs_event = False, unused_events = 0, emitted = []\<rparr>"
  from C6_install_timer [OF p, of None ?es "initial_world False 0"]
  have "install_failed (al_install_timer 1000 None ?es (initial_world False 0))"
    by simp
  moreover from C6_install_timer [OF p, of "Some 1" ?es "initial_world False 0"]
  have "\<exists>w' t. al_install_timer 1000 (Some 1) ?es (initial_world False 0) = Inr (Some 1, w')
          \<and> heap w' 1 = Some t \<and> \<not> started t \<and> count t = 0 \<and> speed_usecs t = 1000000"
    by auto
  ultimately show ?thesis using p by blast
qed

text \<open>
  The claim as first stated, with the stored period equal to the requested one for
  every positive speed, fails at the first speed beyond that bound: in a release
  build as in a debug build, \<open>9223372036854776 * 1000\<close> wraps and the new timer's
  period is \<open>- 9223372036854775616\<close> microseconds.
\<close>

theorem C6_install_timer_counterexample:
  "0 <s (9223372036854776 :: long)
   \<and> al_install_timer 9223372036854776 (Some 1)
        \<lparr>needs_event = False, unused_events = 0, emitted = []\<rparr> (initial_world False 0)
      = Inr (Some 1,
             \<lparr>debugmode = False,
              heap = [1 \<mapsto> \<lparr>es = \<lparr>needs_event = False, unused_events = 0, emitted = []\<rparr>,
                            started = False, speed_usecs = 9223372036854776000,
                            count = 0, counter = 0\<rparr>],
              active_timers = [], timer_thread = False, destructors = {1},
              current_time = 0\<rparr>)
   \<and> sint (speed_usecs
         \<lparr>es = \<lparr>needs_event = False, unused_events = 0, emitted = []\<rparr>,
          started = False, speed_usecs = 9223372036854776000 :: long,
          count = 0, counter = 0\<rparr>) = - 9223372036854775616
   \<and> 1000 * sint (9223372036854776 :: long) = 9223372036854776000
   \<and> sint (speed_usecs
         \<lparr>es = \<lparr>needs_event = False, unused_events = 0, emitted = []\<rparr>,
          started = False, speed_usecs = 9223372036854776000 :: long,
          count = 0, counter = 0\<rparr>) \<noteq> 1000 * sint (9223372036854776 :: long)"
  by (simp add: al_install_timer_def initial_world_def word_sless_alt)

text \<open>
  Claim C7 (a tick always counts). \<^verbatim>\<open>timer_handle_tick\<close> increments the count by
  exactly one whatever the event source answers, and leaves countdown, period and
  \<^verbatim>\<open>started\<close> alone. An event is published exactly when the source needs one and
  has a buffer left; it carries the type \<^verbatim>\<open>ALLEGRO_EVENT_TIMER\<close>, the current time and
  the incremented count. Otherwise nothing is published, and the next tick counts
  again all the same.
\<close>

theorem C7_tick_count:
  "count (timer_handle_tick now t) = count t + 1
   \<and> counter (timer_handle_tick now t) = counter t
   \<and> speed_usecs (timer_handle_tick now t) = speed_usecs t
   \<and> started (timer_handle_tick now t) = started t
   \<and> emitted (es (timer_handle_tick now t)) =
       (if needs_event (es t) \<and> 0 < unused_events (es t)
        then emitted (es t) @ [\<lparr>timer_type = ALLEGRO_EVENT_TIMER, timer_timestamp = now,
                                 timer_count = count t + 1\<rparr>]
        else emitted (es t))
   \<and> count (timer_handle_tick now' (timer_handle_tick now t)) = count t + 2"
  by (simp add: timer_handle_tick_def Let_def al_event_source_needs_to_generate_event_def
      al_event_source_get_unused_event_def al_event_source_emit_event_def)

text \<open>The same at a concrete state.\<close>

theorem C7_tick_count_witness:
  "count (timer_handle_tick 5 example_timer) = 1
   \<and> emitted (es (timer_handle_tick 5 example_timer))
       = [\<lparr>timer_type = ALLEGRO_EVENT_TIMER, timer_timestamp = 5, timer_count = 1\<rparr>]
   \<and> count (timer_handle_tick 5
         (example_timer\<lparr>es := \<lparr>needs_event = True, unused_events = 0, emitted = []\<rparr>\<rparr>)) = 1
   \<and> emitted (es (timer_handle_tick 5
         (example_timer\<lparr>es := \<lparr>needs_event = True, unused_events = 0, emitted = []\<rparr>\<rparr>))) = []"
  using C7_tick_count [of 5 example_timer]
    C7_tick_count [of 5 "example_timer\<lparr>es := \<lparr>needs_event = True, unused_events = 0, emitted = []\<rparr>\<rparr>"]
  by (simp add: example_timer_def)

text \<open>
  Claim C8 (SetCount frame). For a live timer, \<^verbatim>\<open>al_timer_set_count\<close> succeeds,
  sets the count to exactly the given value (which \<^verbatim>\<open>al_timer_get_count\<close> then
  returns) and changes nothing else: countdown, period, \<^verbatim>\<open>started\<close> flag and event
  source of the timer, the other timers, the registry.
\<close>

theorem C8_set_count_frame:
  assumes "heap w this = Some t"
  shows "\<exists>w' t'. al_timer_set_count this V w = Inr w' \<and> heap w' this = Some t'
           \<and> al_timer_get_count this w' = Inr V
           \<and> count t' = V \<and> counter t' = counter t \<and> speed_usecs t' = speed_usecs t
           \<and> started t' = started t \<and> es t' = es t
           \<and> (\<forall>p. p \<noteq> this \<longrightarrow> heap w' p = heap w p)
           \<and> active_timers w' = active_timers w \<and> timer_thread w' = timer_thread w
           \<and> destructors w' = destructors w"
  using assms by (simp add: al_timer_set_count_def al_timer_get_count_def)

text \<open>The same at a concrete state.\<close>

theorem C8_set_count_frame_witness:
  "heap example_world 1 = Some example_timer
   \<and> (\<exists>w' t'. al_timer_set_count 1 42 example_world = Inr w' \<and> heap w' 1 = Some t'
          \<and> count t' = 42 \<and> counter t' = 1000000 \<and> speed_usecs t' = 1000000 \<and> started t')"
proof -
  have h: "heap example_world 1 = Some example_timer"
    by (simp add: example_world_def)
  from C8_set_count_frame [OF h, of 42] show ?thesis
    using h by (auto simp: example_timer_def)
qed

text \<open>
  Claim C9 (positivity after a pass). If every slot of the registry holds a live
  timer with a strictly positive period, then a pass of the driver returns, for any
  elapsed interval; afterwards the countdown of every active timer is strictly
  positive, and the returned sleep interval is strictly positive and at most 32768.
\<close>

theorem C9_post_cycle_positive:
  assumes "active_periods_positive w (active_timers w)"
  shows "\<exists>r w'. timer_thread_handle_tick e w = Inr (r, w')
           \<and> active_timers w' = active_timers w
           \<and> (\<forall>p\<in>set (active_timers w'). \<exists>t'. heap w' p = Some t' \<and> 0 < sint (counter t'))
           \<and> 0 < sint r \<and> sint r \<le> 32768"
proof -
  have valid: "\<forall>p\<in>set (active_timers w). \<exists>t. heap w p = Some t \<and> 0 <s speed_usecs t"
    using assms by (simp add: active_periods_positive_iff)
  from for_positive [OF valid, of e "0x8000"] show ?thesis
    by (fastforce simp: timer_thread_handle_tick_def)
qed

text \<open>The same at a concrete state.\<close>

theorem C9_post_cycle_positive_witness:
  "active_periods_positive example_world (active_timers example_world)
   \<and> (\<exists>r w'. timer_thread_handle_tick 3500000 example_world = Inr (r, w')
          \<and> active_timers w' = [1]
          \<and> (\<exists>t'. heap w' 1 = Some t' \<and> 0 < sint (counter t'))
          \<and> 0 < sint r \<and> sint r \<le> 32768)"
proof -
  from C9_post_cycle_positive [OF example_world_hyps(2), of 3500000]
  obtain r w' where r: "timer_thread_handle_tick 3500000 example_world = Inr (r, w')"
    "active_timers w' = active_timers example_world"
    "\<forall>p\<in>set (active_timers w'). \<exists>t'. heap w' p = Some t' \<and> 0 < sint (counter t')"
    "0 < sint r" "sint r \<le> 32768"
    by blast
  have a: "active_timers w' = [1]" using r(2) by (simp add: example_world_def)
  with r(3) have "\<exists>t'. heap w' 1 = Some t' \<and> 0 < sint (counter t')" by simp
  with r a show ?thesis using example_world_hyps(2) by blast
qed

text \<open>
  Claim C10 (speed round trip), as amended. For every speed \<open>s\<close> with
  \<open>0 < s \<le> 9223372036854775\<close> (the largest \<open>s\<close> for which \<open>s * 1000\<close> fits a
  \<^verbatim>\<open>long\<close>), \<^verbatim>\<open>al_timer_get_speed\<close> returns exactly \<open>s\<close> right after
  \<^verbatim>\<open>al_install_timer\<close> with speed \<open>s\<close> and right after \<^verbatim>\<open>al_timer_set_speed\<close> to
  \<open>s\<close>.
\<close>

theorem C10_speed_round_trip:
  assumes "0 <s s" and "s \<le>s 9223372036854775"
  shows "(\<exists>w'. al_install_timer s (Some p) es_init w = Inr (Some p, w')
            \<and> al_timer_get_speed p w' = Inr s)
       \<and> (heap w this = Some t \<longrightarrow>
            (\<exists>w'. al_timer_set_speed this s w = Inr w' \<and> al_timer_get_speed this w' = Inr s))"
  using assms long_div_round_trip [OF assms]
  by (simp add: al_install_timer_def al_timer_set_speed_def al_timer_get_speed_def Let_def)

text \<open>The same at a concrete state.\<close>

theorem C10_speed_round_trip_witness:
  "0 <s (1000 :: long) \<and> (1000 :: long) \<le>s 9223372036854775
   \<and> heap example_world 1 = Some example_timer
   \<and> (\<exists>w'. al_install_timer 1000 (Some 2) (es example_timer) example_world = Inr (Some 2, w')
          \<and> al_timer_get_speed 2 w' = Inr 1000)
   \<and> (\<exists>w'. al_timer_set_speed 1 1000 example_world = Inr w'
          \<and> al_timer_get_speed 1 w' = Inr 1000)"
proof -
  have p: "0 <s (1000 :: long)" "(1000 :: long) \<le>s 9223372036854775"
    by (simp_all add: word_sless_alt word_sle_eq)
  from C10_speed_round_trip [OF p, of 2 "es example_timer" example_world 1 example_timer]
  show ?thesis using p example_world_hyps(4) by blast
qed

text \<open>
  The claim as first stated, for every positive speed, fails at the next speed:
  \<open>9223372036854776 * 1000\<close> does not fit a \<^verbatim>\<open>long\<close>, the stored period wraps to a
  negative number, and \<^verbatim>\<open>al_timer_get_speed\<close> returns \<open>- 9223372036854775\<close>.
\<close>

theorem C10_speed_round_trip_counterexample:
  "0 <s (9223372036854776 :: long)
   \<and> sint (9223372036854776000 :: long) = - 9223372036854775616
   \<and> al_install_timer 9223372036854776 (Some 1)
        \<lparr>needs_event = False, unused_events = 0, emitted = []\<rparr> (initial_world True 0)
      = Inr (Some 1,
             \<lparr>debugmode = True,
              heap = [1 \<mapsto> \<lparr>es = \<lparr>needs_event = False, unused_events = 0, emitted = []\<rparr>,
                            started = False, speed_usecs = 9223372036854776000,
                            count = 0, counter = 0\<rparr>],
              active_timers = [], timer_thread = False, destructors = {1},
              current_time = 0\<rparr>)
   \<and> al_timer_get_speed 1
        \<lparr>debugmode = True,
         heap = [1 \<mapsto> \<lparr>es = \<lparr>needs_event = False, unused_events = 0, emitted = []\<rparr>,
                       started = False, speed_usecs = 9223372036854776000,
                       count = 0, counter = 0\<rparr>],
         active_timers = [], timer_thread = False, destructors = {1},
         current_time = 0\<rparr>
      = Inr (- 9223372036854775)
   \<and> (- 9223372036854775 :: long) \<noteq> 9223372036854776"
  by (simp add: al_install_timer_def al_timer_get_speed_def initial_world_def long_div_def
      word_sless_alt signed_divide_int_def)

end
